theory Spec2Isabelle
  imports Complex_Main
begin

section \<open>Data quality scoring\<close>

text \<open>
  \<^verbatim>\<open>calculate_completeness(event)\<close> walks the weight dictionary in its insertion order,
  adding the weight of every field that \<^verbatim>\<open>has_field\<close> reports and appending every other
  field name to \<^verbatim>\<open>missing_fields\<close>. The helper \<^verbatim>\<open>has_field\<close> is not defined in the
  design document, so it is a parameter \<open>has_field\<close> of the model; the event type is
  whatever that helper reads.
\<close>

definition weights :: "(string \<times> int) list" where
  "weights =
     [(''title'', 20),
      (''start_date'', 20),
      (''event_type'', 10),
      (''format'', 10),
      (''description'', 10),
      (''location'', 10),
      (''organizer.name'', 10),
      (''registration.url'', 10)]"

text \<open>The \<^verbatim>\<open>for field, weight in weights.items()\<close> loop, on the state \<open>(score, missing_fields)\<close>.\<close>

fun completeness_loop ::
  "('e \<Rightarrow> string \<Rightarrow> bool) \<Rightarrow> 'e \<Rightarrow> (string \<times> int) list \<Rightarrow> int \<times> string list \<Rightarrow> int \<times> string list"
where
  "completeness_loop has_field event [] (score, missing_fields) = (score, missing_fields)"
| "completeness_loop has_field event ((field, weight) # rest) (score, missing_fields) =
     (if has_field event field
      then completeness_loop has_field event rest (score + weight, missing_fields)
      else completeness_loop has_field event rest (score, missing_fields @ [field]))"

definition calculate_completeness :: "('e \<Rightarrow> string \<Rightarrow> bool) \<Rightarrow> 'e \<Rightarrow> int \<times> string list" where
  "calculate_completeness has_field event = completeness_loop has_field event weights (0, [])"

text \<open>The weights of the fields of a table that are present, and the names of those that are not.\<close>

definition present_weights :: "('e \<Rightarrow> string \<Rightarrow> bool) \<Rightarrow> 'e \<Rightarrow> (string \<times> int) list \<Rightarrow> int list" where
  "present_weights has_field event table = map snd (filter (\<lambda>fw. has_field event (fst fw)) table)"

definition absent_fields :: "('e \<Rightarrow> string \<Rightarrow> bool) \<Rightarrow> 'e \<Rightarrow> (string \<times> int) list \<Rightarrow> string list" where
  "absent_fields has_field event table = map fst (filter (\<lambda>fw. \<not> has_field event (fst fw)) table)"

section \<open>Text and markup fragments\<close>

text \<open>
  A Python string is modelled by its UTF-8 encoding, a list of 8-bit characters.
  Concatenation, equality, the substring test and splitting at an ASCII character are the
  same on the encoding as on the string. Stripping and slicing work on whole characters,
  as \<^verbatim>\<open>str.strip\<close> and \<^verbatim>\<open>s[:n]\<close> do: \<open>chars\<close> cuts an encoding into its characters.
  \<open>lower\<close> changes the ASCII letters only.
\<close>

definition lower_char :: "char \<Rightarrow> char" where
  "lower_char c =
     (case map_of (zip ''ABCDEFGHIJKLMNOPQRSTUVWXYZ'' ''abcdefghijklmnopqrstuvwxyz'') c of
        Some l \<Rightarrow> l
      | None \<Rightarrow> c)"

definition lower :: "string \<Rightarrow> string" where
  "lower s = map lower_char s"

text \<open>A continuation byte of UTF-8 has the bit pattern 10xxxxxx.\<close>

definition is_continuation :: "char \<Rightarrow> bool" where
  "is_continuation c = (digit7 c \<and> \<not> digit6 c)"

text \<open>
  The characters of a string, each as its own encoding: a byte together with the
  continuation bytes that follow it.
\<close>

function chars :: "string \<Rightarrow> string list" where
  "chars [] = []"
| "chars (c # cs) = (c # takeWhile is_continuation cs) # chars (dropWhile is_continuation cs)"
  by pat_completeness auto
termination
  by (relation "measure length") (auto simp: less_Suc_eq_le length_dropWhile_le)

text \<open>
  The characters that \<^verbatim>\<open>str.strip()\<close> removes, those for which \<^verbatim>\<open>str.isspace\<close> holds:
  U+0009 to U+000D, U+001C to U+0020, U+0085, U+00A0, U+1680, U+2000 to U+200A, U+2028,
  U+2029, U+202F, U+205F and U+3000.
\<close>

definition whitespace :: "string list" where
  "whitespace =
     [[CHR 0x09], [CHR 0x0A], [CHR 0x0B], [CHR 0x0C], [CHR 0x0D],
      [CHR 0x1C], [CHR 0x1D], [CHR 0x1E], [CHR 0x1F], [CHR 0x20],
      [CHR 0xC2, CHR 0x85], [CHR 0xC2, CHR 0xA0], [CHR 0xE1, CHR 0x9A, CHR 0x80],
      [CHR 0xE2, CHR 0x80, CHR 0x80], [CHR 0xE2, CHR 0x80, CHR 0x81],
      [CHR 0xE2, CHR 0x80, CHR 0x82], [CHR 0xE2, CHR 0x80, CHR 0x83],
      [CHR 0xE2, CHR 0x80, CHR 0x84], [CHR 0xE2, CHR 0x80, CHR 0x85],
      [CHR 0xE2, CHR 0x80, CHR 0x86], [CHR 0xE2, CHR 0x80, CHR 0x87],
      [CHR 0xE2, CHR 0x80, CHR 0x88], [CHR 0xE2, CHR 0x80, CHR 0x89],
      [CHR 0xE2, CHR 0x80, CHR 0x8A], [CHR 0xE2, CHR 0x80, CHR 0xA8],
      [CHR 0xE2, CHR 0x80, CHR 0xA9], [CHR 0xE2, CHR 0x80, CHR 0xAF],
      [CHR 0xE2, CHR 0x81, CHR 0x9F], [CHR 0xE3, CHR 0x80, CHR 0x80]]"

definition is_space :: "string \<Rightarrow> bool" where
  "is_space ch = (ch \<in> set whitespace)"

text \<open>\<^verbatim>\<open>s.strip()\<close>\<close>

definition strip :: "string \<Rightarrow> string" where
  "strip s = concat (rev (dropWhile is_space (rev (dropWhile is_space (chars s)))))"

text \<open>\<^verbatim>\<open>s[:n]\<close>: the first \<open>n\<close> characters.\<close>

definition slice_chars :: "nat \<Rightarrow> string \<Rightarrow> string" where
  "slice_chars n s = concat (take n (chars s))"

text \<open>\<^verbatim>\<open>len(s)\<close>: the number of characters.\<close>

definition len :: "string \<Rightarrow> nat" where
  "len s = length (chars s)"

text \<open>
  A character that can follow another one: it starts with a byte that is no continuation
  byte, and only continuation bytes follow.
\<close>

definition later_ok :: "string \<Rightarrow> bool" where
  "later_ok ch = (ch \<noteq> [] \<and> \<not> is_continuation (hd ch) \<and> (\<forall>x \<in> set (tl ch). is_continuation x))"

definition starts_with :: "string \<Rightarrow> string \<Rightarrow> bool" where
  "starts_with kw s = (take (length kw) s = kw)"

text \<open>Python's \<^verbatim>\<open>kw in text\<close> on strings: \<open>kw\<close> occurs in \<open>text\<close> as a contiguous piece.\<close>

fun contains :: "string \<Rightarrow> string \<Rightarrow> bool" where
  "contains kw [] = (kw = [])"
| "contains kw (c # cs) = (starts_with kw (c # cs) \<or> contains kw cs)"

text \<open>Python's \<^verbatim>\<open>text.split(sep)\<close> for a one-character separator.\<close>

fun split_on :: "char \<Rightarrow> string \<Rightarrow> string list" where
  "split_on sep [] = [[]]"
| "split_on sep (c # cs) =
     (if c = sep then [] # split_on sep cs
      else (case split_on sep cs of
              p # ps \<Rightarrow> (c # p) # ps
            | [] \<Rightarrow> [[c]]))"

text \<open>
  A fragment is a parsed markup element as BeautifulSoup holds it: a text node, or a tag
  with its name, its list of classes, its other attributes and its children.
\<close>

datatype html =
    Text string
  | Tag string "string list" "(string \<times> string) list" "html list"

text \<open>All text nodes below an element, in document order.\<close>

fun strings :: "html \<Rightarrow> string list" where
  "strings (Text s) = [s]"
| "strings (Tag name classes attrs children) = concat (map strings children)"

text \<open>\<^verbatim>\<open>element.get_text()\<close>, also \<^verbatim>\<open>element.text\<close>.\<close>

definition get_text :: "html \<Rightarrow> string" where
  "get_text element = concat (strings element)"

text \<open>\<^verbatim>\<open>element.get_text(strip=True)\<close>: every text node stripped, the empty ones dropped.\<close>

definition get_text_strip :: "html \<Rightarrow> string" where
  "get_text_strip element = concat (filter (\<lambda>s. s \<noteq> []) (map strip (strings element)))"

fun descendants :: "html \<Rightarrow> html list" where
  "descendants (Text s) = []"
| "descendants (Tag name classes attrs children) =
     concat (map (\<lambda>child. child # descendants child) children)"

text \<open>
  The CSS selectors the parser uses: \<^verbatim>\<open>h1\<close>, \<^verbatim>\<open>.date\<close>, \<^verbatim>\<open>time[datetime]\<close> and
  \<^verbatim>\<open>a[href*="zoom"]\<close>; a comma-separated selector is the list of its alternatives.
\<close>

datatype selector =
    By_tag string
  | By_class string
  | By_tag_attr string string
  | By_tag_attr_contains string string string

fun get_attr :: "html \<Rightarrow> string \<Rightarrow> string option" where
  "get_attr (Text s) name = None"
| "get_attr (Tag tag classes attrs children) name = map_of attrs name"


fun matches :: "selector \<Rightarrow> html \<Rightarrow> bool" where
  "matches sel (Text s) = False"
| "matches (By_tag t) (Tag tag classes attrs children) = (tag = t)"
| "matches (By_class c) (Tag tag classes attrs children) = (c \<in> set classes)"
| "matches (By_tag_attr t a) (Tag tag classes attrs children) =
     (tag = t \<and> map_of attrs a \<noteq> None)"
| "matches (By_tag_attr_contains t a v) (Tag tag classes attrs children) =
     (tag = t \<and> (case map_of attrs a of Some x \<Rightarrow> contains v x | None \<Rightarrow> False))"

text \<open>\<^verbatim>\<open>element.select_one(selector)\<close>: the first descendant, in document order, that an
  alternative of the selector matches.\<close>

definition select_one :: "selector list \<Rightarrow> html \<Rightarrow> html option" where
  "select_one sels element = find (\<lambda>d. list_ex (\<lambda>sel. matches sel d) sels) (descendants element)"

section \<open>Event parser\<close>


datatype exn = ParserError | KeyError | ValidationError



definition FORMAT_KEYWORDS :: "string \<Rightarrow> string list" where
  "FORMAT_KEYWORDS key =
     (if key = ''online'' then [''online'', ''virtual'', ''webinar'', ''zoom'', ''via zoom'', ''remote'']
      else if key = ''in-person'' then [''in-person'', ''in person'', ''venue'', ''location:'', ''address:'']
      else if key = ''hybrid'' then [''hybrid'', ''both online and in-person'']
      else [])"

text \<open>\<^verbatim>\<open>any(kw in text for kw in keywords)\<close>\<close>

definition any_kw_in :: "string list \<Rightarrow> string \<Rightarrow> bool" where
  "any_kw_in keywords text = list_ex (\<lambda>kw. contains kw text) keywords"

definition title_selectors :: "selector list" where
  "title_selectors = [By_tag ''h1'', By_tag ''h2'', By_tag ''h3'',
                      By_class ''event-title'', By_class ''title'', By_tag ''a'']"

fun title_loop :: "selector list \<Rightarrow> html \<Rightarrow> string option" where
  "title_loop [] element = None"
| "title_loop (selector # rest) element =
     (case select_one [selector] element of
        Some title_elem \<Rightarrow>
          if strip (get_text title_elem) \<noteq> [] then Some (strip (get_text title_elem))
          else title_loop rest element
      | None \<Rightarrow> title_loop rest element)"

definition extract_title :: "html \<Rightarrow> string" where
  "extract_title element =
     (case title_loop title_selectors element of
        Some title \<Rightarrow> title
      | None \<Rightarrow> slice_chars 200 (get_text_strip element))"

text \<open>
  Every structural selector of \<^verbatim>\<open>_extract_title\<close> fails: it selects nothing, or an
  element whose stripped text is empty.
\<close>

definition selectors_fail :: "html \<Rightarrow> bool" where
  "selectors_fail element =
     list_all (\<lambda>selector. case select_one [selector] element of
                             None \<Rightarrow> True
                           | Some title_elem \<Rightarrow> strip (get_text title_elem) = [])
       title_selectors"





definition location_selectors :: "selector list" where
  "location_selectors = [By_class ''location'', By_class ''venue'', By_class ''address'']"

definition detect_format :: "html \<Rightarrow> string" where
  "detect_format element =
     (let text = lower (get_text element) in
      if any_kw_in (FORMAT_KEYWORDS ''hybrid'') text then ''hybrid''
      else if any_kw_in (FORMAT_KEYWORDS ''online'') text then ''online''
      else if any_kw_in (FORMAT_KEYWORDS ''in-person'') text then ''in-person''
      else if select_one location_selectors element \<noteq> None then ''in-person''
      else ''online'')"

text \<open>No keyword of any of the three categories occurs in the lowercased text.\<close>

definition matches_no_keyword :: "html \<Rightarrow> bool" where
  "matches_no_keyword element =
     (\<not> any_kw_in (FORMAT_KEYWORDS ''hybrid'') (lower (get_text element))
      \<and> \<not> any_kw_in (FORMAT_KEYWORDS ''online'') (lower (get_text element))
      \<and> \<not> any_kw_in (FORMAT_KEYWORDS ''in-person'') (lower (get_text element)))"

definition zoom_selectors :: "selector list" where
  "zoom_selectors = [By_tag_attr_contains ''a'' ''href'' ''zoom'',
                     By_tag_attr_contains ''a'' ''href'' ''meet'']"

text \<open>\<^verbatim>\<open>_extract_location\<close>; the dictionary it fills is a map from keys to strings.\<close>

definition extract_location :: "html \<Rightarrow> exn + (string \<rightharpoonup> string)" where
  "extract_location element =
     (let location = Map.empty;
          location =
            (case select_one location_selectors element of
               Some loc_elem \<Rightarrow>
                 (let text = get_text_strip loc_elem;
                      location = location(''venue'' \<mapsto> text);
                      parts = map strip (split_on CHR '','' text)
                  in if length parts \<ge> 2
                     then location(''city'' \<mapsto> hd parts, ''country'' \<mapsto> last parts)
                     else location)
             | None \<Rightarrow> location)
      in case select_one zoom_selectors element of
           Some zoom_link \<Rightarrow>
             (case get_attr zoom_link ''href'' of
                Some href \<Rightarrow> Inr (location(''online_url'' \<mapsto> href))
              | None \<Rightarrow> Inl KeyError)
         | None \<Rightarrow> Inr location)"








text \<open>
  The dictionary \<^verbatim>\<open>event_data\<close> that \<^verbatim>\<open>parse_event_from_html\<close> builds. The class
  \<^verbatim>\<open>Event\<close> and its validation are not part of the design document: the constructor is
  the parameter \<open>Event\<close>, which returns the object or raises.
\<close>

record ('d, 's) event_data =
  title :: string
  description :: string
  start_date :: "'d option"
  format :: string
  location :: "string \<rightharpoonup> string"
  registration :: "string \<rightharpoonup> string"
  source :: 's


subsection \<open>Stages of date extraction\<close>





subsection \<open>Outcome of the assembler\<close>



subsection \<open>Example fragments and libraries\<close>



definition frag_hybrid_zoom :: html where
  "frag_hybrid_zoom =
     Tag ''div'' [''event''] [] [Tag ''h2'' [] [] [Text ''Hybrid talk''], Text '' via Zoom'']"

definition frag_webinar :: html where
  "frag_webinar = Tag ''div'' [] [] [Text ''Webinar'']"

definition frag_venue_text :: html where
  "frag_venue_text = Tag ''div'' [] [] [Text ''Venue: Hall'']"

definition frag_stated_online :: html where
  "frag_stated_online = Tag ''div'' [] [] [Text ''Online talk'']"

definition frag_no_keyword :: html where
  "frag_no_keyword = Tag ''div'' [] [] [Text ''Talk'']"

definition frag_located :: html where
  "frag_located =
     Tag ''div'' [] [] [Text ''Talk'', Tag ''span'' [''address''] [] [Text ''Rome, Italy'']]"

definition frag_plain :: html where
  "frag_plain = Tag ''div'' [] [] [Text ''  Talk '', Tag ''span'' [] [] [Text '' now '']]"

definition frag_blank :: html where
  "frag_blank = Tag ''div'' [] [] [Text ''  '', Tag ''h2'' [] [] [Text '' '']]"

text \<open>A fragment whose only text is a no-break space, an em space and a space.\<close>

definition frag_nbsp :: html where
  "frag_nbsp =
     Tag ''div'' [] []
       [Text [CHR 0xC2, CHR 0xA0],
        Tag ''h2'' [] [] [Text [CHR 0xE2, CHR 0x80, CHR 0x83, CHR 0x20]]]"

text \<open>A fragment whose text ends in a two-byte character and a no-break space.\<close>

definition frag_cafe :: html where
  "frag_cafe = Tag ''div'' [] [] [Text (''Caf'' @ [CHR 0xC3, CHR 0xA9, CHR 0xC2, CHR 0xA0])]"

definition frag_hybrid_venue :: html where
  "frag_hybrid_venue =
     Tag ''div'' [] []
       [Tag ''span'' [''venue''] [] [Text '' Freud Museum, London , UK ''],
        Tag ''a'' [] [(''href'', ''https://zoom.us/j/1'')] [Text ''Join'']]"

definition frag_venue_only :: html where
  "frag_venue_only = Tag ''div'' [] [] [Tag ''p'' [''location''] [] [Text ''Main Hall'']]"




section \<open>Merging duplicates\<close>

text \<open>
  Modelled from the spec: the scored event and the merge rule of the deduplicator. The
  design document only declares \<^verbatim>\<open>EventMerger.merge_duplicates\<close> and
  \<^verbatim>\<open>EventMerger.deduplicate\<close> (their bodies are \<^verbatim>\<open>pass\<close>) and never defines
  \<^verbatim>\<open>has_field\<close>; the merger's implementation is not among the sources. The value
  of a weighted field is a text, an instant that may be unresolved, or a nested object.
\<close>

datatype field_value =
    Text_field string
  | Instant_field "int option"
  | Object_field "(string \<times> string) list"

text \<open>
  Modelled from the spec: the ScoredEvent, "CandidateEvent + completeness_score +
  missing_fields", with the candidate reduced to its weighted fields and the scrape time
  of its source provenance.
\<close>

record scored_event =
  field_values :: "string \<Rightarrow> field_value"
  scraped_at :: int
  completeness_score :: int
  missing_fields :: "string list"

text \<open>
  Modelled from the spec: the presence rule of the scorer, which stands in for the
  undefined \<^verbatim>\<open>has_field\<close>: "non-empty string for text fields, non-null resolved instant
  for dates, non-empty nested object for location/organizer/registration".
\<close>

fun field_present :: "field_value \<Rightarrow> bool" where
  "field_present (Text_field s) = (s \<noteq> [])"
| "field_present (Instant_field t) = (t \<noteq> None)"
| "field_present (Object_field entries) = (entries \<noteq> [])"

text \<open>
  Modelled from the spec: \<^verbatim>\<open>has_field\<close>, undefined in the design document, as the
  presence rule applied to the value of the field.
\<close>

definition has_field_spec :: "(string \<Rightarrow> field_value) \<Rightarrow> string \<Rightarrow> bool" where
  "has_field_spec values field = field_present (values field)"

text \<open>Modelled from the spec: the scorer attaches score and missing fields to a candidate.\<close>

definition scored :: "(string \<Rightarrow> field_value) \<Rightarrow> int \<Rightarrow> scored_event" where
  "scored values time =
     \<lparr> field_values = values,
       scraped_at = time,
       completeness_score = fst (calculate_completeness has_field_spec values),
       missing_fields = snd (calculate_completeness has_field_spec values) \<rparr>"

text \<open>
  Modelled from the spec: the invariant of a scored event, "score is a deterministic pure
  function of which weighted fields are present".
\<close>

definition is_scored :: "scored_event \<Rightarrow> bool" where
  "is_scored event = (event = scored (field_values event) (scraped_at event))"

text \<open>
  Modelled from the spec: "for each field independently, prefer the value from whichever
  member's CompletenessScorer marked that specific field present; if multiple members have
  it present, prefer the one from the more recently scraped source; never average or
  concatenate field values across members except for missing_fields (which is the set of
  fields missing from the merged result)". On equal scrape times the first member is kept.
\<close>

definition merge_field :: "scored_event \<Rightarrow> scored_event \<Rightarrow> string \<Rightarrow> field_value" where
  "merge_field event1 event2 field =
     (if has_field_spec (field_values event2) field
         \<and> (\<not> has_field_spec (field_values event1) field \<or> scraped_at event1 < scraped_at event2)
      then field_values event2 field
      else field_values event1 field)"

text \<open>
  Modelled from the spec: \<^verbatim>\<open>merge_duplicates\<close>, declared without a body in the design
  document. It merges every field by the rule above and scores the merged record anew,
  the canonical record carrying the later of the two scrape times.
\<close>

definition merge_duplicates :: "scored_event \<Rightarrow> scored_event \<Rightarrow> scored_event" where
  "merge_duplicates event1 event2 =
     scored (merge_field event1 event2) (max (scraped_at event1) (scraped_at event2))"

text \<open>Field values given by a list of entries; a field without entry is an empty text.\<close>

definition fields_of :: "(string \<times> field_value) list \<Rightarrow> string \<Rightarrow> field_value" where
  "fields_of entries field = (case map_of entries field of Some v \<Rightarrow> v | None \<Rightarrow> Text_field [])"

text \<open>Two records of one event from two sources, the first scraped later.\<close>

definition event_A :: scored_event where
  "event_A =
     scored (fields_of [(''title'', Text_field ''Annual Conference 2025''),
                        (''start_date'', Instant_field (Some 20250601))]) 200"

definition event_B :: scored_event where
  "event_B =
     scored (fields_of [(''title'', Text_field ''Annual conference 2025''),
                        (''start_date'', Instant_field (Some 20250601)),
                        (''event_type'', Text_field ''conference''),
                        (''format'', Text_field ''in-person''),
                        (''description'', Text_field ''Yearly meeting''),
                        (''location'', Object_field [(''city'', ''Vienna'')])]) 100"

section \<open>Front end: filtering and sorting events\<close>

text \<open>
  The \<^verbatim>\<open>filteredEvents\<close> computation of the \<^verbatim>\<open>App\<close> component. An event is an object
  of the catalogue: each field the component reads is a value of its type, \<^verbatim>\<open>null\<close>, or
  missing (\<^verbatim>\<open>undefined\<close>). \<open>e_organizer_name\<close> is \<^verbatim>\<open>e.organizer?.name\<close>.
\<close>

datatype 'a nullish = Undefined | Null | Val 'a

record event =
  e_title :: "string nullish"
  e_description :: "string nullish"
  e_organizer_name :: "string nullish"
  e_format :: "string nullish"
  e_event_type :: "string nullish"
  e_start_date :: "string nullish"
  e_completeness_score :: "int nullish"

record filters =
  filters_search :: string
  filters_format :: "string list"
  filters_eventType :: "string list"
  filters_startDate :: string
  filters_endDate :: string
  filters_organization :: string

text \<open>
  What the component takes from the JavaScript runtime: the time value of
  \<^verbatim>\<open>new Date(s)\<close> for a string (\<open>None\<close> for an invalid date, whose time value is NaN),
  the time value of \<^verbatim>\<open>new Date(9999, 11, 31)\<close> in the local time zone, and
  \<^verbatim>\<open>a.localeCompare(b)\<close>.
\<close>

record js_env =
  Date_value :: "string \<Rightarrow> int option"
  far_future :: int
  localeCompare :: "string \<Rightarrow> string \<Rightarrow> int"

definition toLowerCase :: "string \<Rightarrow> string" where
  "toLowerCase s = map lower_char s"

text \<open>Truthiness of a string field.\<close>

fun truthy_str :: "string nullish \<Rightarrow> bool" where
  "truthy_str (Val s) = (s \<noteq> [])"
| "truthy_str Undefined = False"
| "truthy_str Null = False"

text \<open>\<^verbatim>\<open>v?.toLowerCase().includes(searchLower)\<close>, as a condition.\<close>

fun lower_includes :: "string nullish \<Rightarrow> string \<Rightarrow> bool" where
  "lower_includes (Val s) searchLower = contains searchLower (toLowerCase s)"
| "lower_includes Undefined searchLower = False"
| "lower_includes Null searchLower = False"

text \<open>\<^verbatim>\<open>array.includes(v)\<close> for an array of strings.\<close>

fun includes_field :: "string list \<Rightarrow> string nullish \<Rightarrow> bool" where
  "includes_field array (Val s) = (s \<in> set array)"
| "includes_field array Undefined = False"
| "includes_field array Null = False"

text \<open>\<^verbatim>\<open>a >= b\<close> and \<^verbatim>\<open>a <= b\<close> on dates: false when either time value is NaN.\<close>

fun date_ge :: "int option \<Rightarrow> int option \<Rightarrow> bool" where
  "date_ge (Some a) (Some b) = (a \<ge> b)"
| "date_ge a b = False"

fun date_le :: "int option \<Rightarrow> int option \<Rightarrow> bool" where
  "date_le (Some a) (Some b) = (a \<le> b)"
| "date_le a b = False"

text \<open>\<^verbatim>\<open>e.start_date && new Date(e.start_date) >= start\<close>, as a condition.\<close>

fun on_or_after :: "js_env \<Rightarrow> int option \<Rightarrow> string nullish \<Rightarrow> bool" where
  "on_or_after env start (Val s) = (s \<noteq> [] \<and> date_ge (Date_value env s) start)"
| "on_or_after env start Undefined = False"
| "on_or_after env start Null = False"

fun on_or_before :: "js_env \<Rightarrow> int option \<Rightarrow> string nullish \<Rightarrow> bool" where
  "on_or_before env end (Val s) = (s \<noteq> [] \<and> date_le (Date_value env s) end)"
| "on_or_before env end Undefined = False"
| "on_or_before env end Null = False"

text \<open>The comparator of \<^verbatim>\<open>result.sort\<close>; \<open>None\<close> is the result NaN.\<close>

definition sort_date :: "js_env \<Rightarrow> string nullish \<Rightarrow> int option" where
  "sort_date env d =
     (case d of
        Val s \<Rightarrow> if s \<noteq> [] then Date_value env s else Some (far_future env)
      | Undefined \<Rightarrow> Some (far_future env)
      | Null \<Rightarrow> Some (far_future env))"

definition or_empty :: "string nullish \<Rightarrow> string" where
  "or_empty v = (case v of Val s \<Rightarrow> s | Undefined \<Rightarrow> [] | Null \<Rightarrow> [])"

definition or_zero :: "int nullish \<Rightarrow> int" where
  "or_zero v = (case v of Val n \<Rightarrow> n | Undefined \<Rightarrow> 0 | Null \<Rightarrow> 0)"

definition compare_events :: "js_env \<Rightarrow> string \<Rightarrow> event \<Rightarrow> event \<Rightarrow> int option" where
  "compare_events env sortBy a b =
     (if sortBy = ''date'' then
        (case (sort_date env (e_start_date a), sort_date env (e_start_date b)) of
           (Some dateA, Some dateB) \<Rightarrow> Some (dateA - dateB)
         | _ \<Rightarrow> None)
      else if sortBy = ''title'' then
        Some (localeCompare env (or_empty (e_title a)) (or_empty (e_title b)))
      else if sortBy = ''completeness'' then
        Some (or_zero (e_completeness_score b) - or_zero (e_completeness_score a))
      else Some 0)"

text \<open>
  \<^verbatim>\<open>Array.prototype.sort\<close> with a comparator, as a stable insertion sort: an element moves
  behind another only when the comparator's result for the pair is positive; NaN counts as
  zero. Where the comparator is consistent, every stable sort gives this order. Where it
  is not (a NaN from an invalid date), the order is left to the engine and may differ from
  this one; the result is a rearrangement of the array in either case, and nothing below
  depends on more than that.
\<close>

fun insert_sorted :: "('a \<Rightarrow> 'a \<Rightarrow> int option) \<Rightarrow> 'a \<Rightarrow> 'a list \<Rightarrow> 'a list" where
  "insert_sorted cmp x [] = [x]"
| "insert_sorted cmp x (y # ys) =
     (if (case cmp x y of Some v \<Rightarrow> v > 0 | None \<Rightarrow> False)
      then y # insert_sorted cmp x ys
      else x # y # ys)"

definition js_sort :: "('a \<Rightarrow> 'a \<Rightarrow> int option) \<Rightarrow> 'a list \<Rightarrow> 'a list" where
  "js_sort cmp xs = foldr (insert_sorted cmp) xs []"

definition filteredEvents :: "js_env \<Rightarrow> event list \<Rightarrow> filters \<Rightarrow> string \<Rightarrow> event list" where
  "filteredEvents env events filters sortBy =
     (let result = events;
          result =
            (if filters_search filters \<noteq> [] then
               (let searchLower = toLowerCase (filters_search filters) in
                filter (\<lambda>e. lower_includes (e_title e) searchLower
                            \<or> lower_includes (e_description e) searchLower
                            \<or> lower_includes (e_organizer_name e) searchLower) result)
             else result);
          result =
            (if length (filters_format filters) > 0
             then filter (\<lambda>e. includes_field (filters_format filters) (e_format e)) result
             else result);
          result =
            (if length (filters_eventType filters) > 0
             then filter (\<lambda>e. includes_field (filters_eventType filters) (e_event_type e)) result
             else result);
          result =
            (if filters_organization filters \<noteq> []
             then filter (\<lambda>e. e_organizer_name e = Val (filters_organization filters)) result
             else result);
          result =
            (if filters_startDate filters \<noteq> [] then
               (let start = Date_value env (filters_startDate filters) in
                filter (\<lambda>e. on_or_after env start (e_start_date e)) result)
             else result);
          result =
            (if filters_endDate filters \<noteq> [] then
               (let end = Date_value env (filters_endDate filters) in
                filter (\<lambda>e. on_or_before env end (e_start_date e)) result)
             else result)
      in js_sort (compare_events env sortBy) result)"

text \<open>A runtime for the examples, in UTC: it reads the two dates used there.\<close>

definition demo_env :: js_env where
  "demo_env =
     \<lparr> Date_value = (\<lambda>s. if s = ''2025-06-01'' then Some 1748736000000
                          else if s = ''2025-01-01'' then Some 1735689600000 else None),
       far_future = 253402214400000,
       localeCompare = (\<lambda>a b. 0) \<rparr>"

definition undated_event :: event where
  "undated_event =
     \<lparr> e_title = Val ''Reading group'', e_description = Undefined,
       e_organizer_name = Val ''Society A'', e_format = Val ''online'',
       e_event_type = Val ''seminar'', e_start_date = Null, e_completeness_score = Val 40 \<rparr>"

definition dated_event :: event where
  "dated_event =
     \<lparr> e_title = Val ''Reading day'', e_description = Undefined,
       e_organizer_name = Val ''Society A'', e_format = Val ''online'',
       e_event_type = Val ''seminar'', e_start_date = Val ''2025-06-01'',
       e_completeness_score = Val 60 \<rparr>"

definition demo_filters :: filters where
  "demo_filters =
     \<lparr> filters_search = ''reading'', filters_format = [''online''], filters_eventType = [],
       filters_startDate = ''2025-01-01'', filters_endDate = [],
       filters_organization = ''Society A'' \<rparr>"

section \<open>Front end: loading events\<close>

text \<open>
  The \<^verbatim>\<open>useEvents\<close> hook. A value of the runtime: \<^verbatim>\<open>undefined\<close>, or what
  \<^verbatim>\<open>response.json()\<close> can resolve to. A number is the value of the parsed double; an
  object is the list of its entries, where a later entry overrides an earlier one with its
  key.
\<close>

datatype jsval =
    JUndefined
  | JNull
  | JBool bool
  | JNum rat
  | JStr string
  | JArr "jsval list"
  | JObj "(string \<times> jsval) list"

text \<open>A thrown error object; \<open>message\<close> is its \<^verbatim>\<open>err.message\<close>.\<close>

datatype js_error = Error string | TypeError string | SyntaxError string

fun message :: "js_error \<Rightarrow> string" where
  "message (Error m) = m"
| "message (TypeError m) = m"
| "message (SyntaxError m) = m"

fun isArray :: "jsval \<Rightarrow> bool" where
  "isArray (JArr xs) = True"
| "isArray v = False"

fun truthy :: "jsval \<Rightarrow> bool" where
  "truthy JUndefined = False"
| "truthy JNull = False"
| "truthy (JBool b) = b"
| "truthy (JNum x) = (x \<noteq> 0)"
| "truthy (JStr s) = (s \<noteq> [])"
| "truthy (JArr xs) = True"
| "truthy (JObj entries) = True"

text \<open>
  \<^verbatim>\<open>v?.key\<close> for the keys the hook reads (\<^verbatim>\<open>events\<close>, \<^verbatim>\<open>metadata\<close>,
  \<^verbatim>\<open>last_updated\<close>), which only an object can hold.
\<close>

fun get_optional :: "jsval \<Rightarrow> string \<Rightarrow> jsval" where
  "get_optional (JObj entries) key =
     (case map_of (rev entries) key of Some v \<Rightarrow> v | None \<Rightarrow> JUndefined)"
| "get_optional v key = JUndefined"

text \<open>\<^verbatim>\<open>v.key\<close>: reading a property of \<^verbatim>\<open>null\<close> or \<^verbatim>\<open>undefined\<close> throws a TypeError.\<close>

definition quote :: string where
  "quote = [CHR 0x27]"

definition get_property :: "jsval \<Rightarrow> string \<Rightarrow> js_error + jsval" where
  "get_property v key =
     (if v = JNull then
        Inl (TypeError (''Cannot read properties of null (reading '' @ quote @ key @ quote @ '')''))
      else if v = JUndefined then
        Inl (TypeError (''Cannot read properties of undefined (reading '' @ quote @ key @ quote @ '')''))
      else Inr (get_optional v key))"

text \<open>The decimal digits of a number, for the template literal with \<^verbatim>\<open>response.status\<close>.\<close>

fun digits :: "nat \<Rightarrow> string" where
  "digits n = (if n < 10 then [''0123456789'' ! n] else digits (n div 10) @ [''0123456789'' ! (n mod 10)])"

declare digits.simps [simp del]

text \<open>
  The response of \<^verbatim>\<open>fetch\<close>: its \<^verbatim>\<open>ok\<close> flag, its status, and what \<^verbatim>\<open>response.json()\<close>
  settles to. \<^verbatim>\<open>fetch\<close> itself settles to a response or rejects with an error.
\<close>

record response =
  ok :: bool
  status :: nat
  json :: "js_error + jsval"

text \<open>The four state variables of the hook.\<close>

record hook_state =
  events :: jsval
  loading :: bool
  error :: jsval
  lastUpdated :: jsval

definition initial_state :: hook_state where
  "initial_state = \<lparr> events = JArr [], loading = True, error = JNull, lastUpdated = JNull \<rparr>"

definition setEvents :: "jsval \<Rightarrow> hook_state \<Rightarrow> hook_state" where
  "setEvents v st = st \<lparr> events := v \<rparr>"

definition setLoading :: "bool \<Rightarrow> hook_state \<Rightarrow> hook_state" where
  "setLoading v st = st \<lparr> loading := v \<rparr>"

definition setError :: "jsval \<Rightarrow> hook_state \<Rightarrow> hook_state" where
  "setError v st = st \<lparr> error := v \<rparr>"

definition setLastUpdated :: "jsval \<Rightarrow> hook_state \<Rightarrow> hook_state" where
  "setLastUpdated v st = st \<lparr> lastUpdated := v \<rparr>"

text \<open>
  The \<^verbatim>\<open>try\<close> block of \<^verbatim>\<open>fetchEvents\<close>: the state it leaves, together with the error
  it throws, if any.
\<close>

definition try_block :: "(js_error + response) \<Rightarrow> hook_state \<Rightarrow> js_error option \<times> hook_state" where
  "try_block fetched st0 =
     (let st = setLoading True st0;
          st = setError JNull st
      in case fetched of
           Inl err \<Rightarrow> (Some err, st)
         | Inr response \<Rightarrow>
             if \<not> ok response
             then (Some (Error (''Failed to fetch events: '' @ digits (status response))), st)
             else (case json response of
                     Inl err \<Rightarrow> (Some err, st)
                   | Inr data \<Rightarrow>
                       if isArray data then (None, setEvents data st)
                       else (case get_property data ''events'' of
                               Inl err \<Rightarrow> (Some err, st)
                             | Inr data_events \<Rightarrow>
                                 if truthy data_events then
                                   (let st = setEvents data_events st in
                                    case get_property data ''metadata'' of
                                      Inl err \<Rightarrow> (Some err, st)
                                    | Inr metadata \<Rightarrow>
                                        if truthy (get_optional metadata ''last_updated'')
                                        then (None, setLastUpdated
                                                      (get_optional metadata ''last_updated'') st)
                                        else (None, st))
                                 else (None, setEvents (JArr []) st))))"

text \<open>\<^verbatim>\<open>fetchEvents\<close>: the \<^verbatim>\<open>try\<close> block, then \<^verbatim>\<open>catch\<close> on an error, then \<^verbatim>\<open>finally\<close>.\<close>

definition fetchEvents :: "(js_error + response) \<Rightarrow> hook_state \<Rightarrow> hook_state" where
  "fetchEvents fetched st0 =
     (case try_block fetched st0 of
        (None, st) \<Rightarrow> setLoading False st
      | (Some err, st) \<Rightarrow>
          setLoading False (setEvents (JArr []) (setError (JStr (message err)) st)))"

text \<open>What the fetch delivers, as one value: a failure with its message, or the payload.\<close>

fun payload :: "(js_error + response) \<Rightarrow> js_error + jsval" where
  "payload (Inl err) = Inl err"
| "payload (Inr response) =
     (if \<not> ok response then Inl (Error (''Failed to fetch events: '' @ digits (status response)))
      else json response)"

definition ok_response :: "jsval \<Rightarrow> js_error + response" where
  "ok_response data = Inr \<lparr> ok = True, status = 200, json = Inr data \<rparr>"

definition not_found_response :: "js_error + response" where
  "not_found_response = Inr \<lparr> ok = False, status = 404, json = Inr (JArr []) \<rparr>"

definition wrapped_payload :: jsval where
  "wrapped_payload =
     JObj [(''metadata'', JObj [(''last_updated'', JStr ''2025-06-01'')]),
           (''events'', JArr [JObj [(''title'', JStr ''Seminar'')]])]"

section \<open>Properties of the scoring\<close>

lemma completeness_loop_acc:
  "completeness_loop hf e table (s, m) =
     (s + sum_list (present_weights hf e table), m @ absent_fields hf e table)"
  by (induction table arbitrary: s m) (auto simp: present_weights_def absent_fields_def)

lemma weights_nonneg: "\<forall>fw \<in> set weights. 0 \<le> snd fw"
  by (simp add: weights_def)

lemma weights_total: "sum_list (map snd weights) = 100"
  by (simp add: weights_def)

lemma present_weights_bounds:
  assumes "\<forall>fw \<in> set table. 0 \<le> snd fw"
  shows "0 \<le> sum_list (present_weights hf e table)
       \<and> sum_list (present_weights hf e table) \<le> sum_list (map snd table)"
  using assms by (induction table) (auto simp: present_weights_def)

text \<open>
  C1. For every event and every presence rule, the completeness score is the sum of the
  weights (title 20, start_date 20, six others 10 each, 100 in total) of exactly the fields
  that the presence rule accepts, so it lies between 0 and 100, and the list of missing
  fields is exactly the rejected fields of the weight table, in the table's declaration order.
\<close>

theorem calculate_completeness_correct:
  "fst (calculate_completeness has_field event) = sum_list (present_weights has_field event weights)
   \<and> 0 \<le> fst (calculate_completeness has_field event)
   \<and> fst (calculate_completeness has_field event) \<le> 100
   \<and> snd (calculate_completeness has_field event) = absent_fields has_field event weights
   \<and> map fst weights = [''title'', ''start_date'', ''event_type'', ''format'', ''description'',
        ''location'', ''organizer.name'', ''registration.url'']
   \<and> map snd weights = [20, 20, 10, 10, 10, 10, 10, 10]
   \<and> sum_list (map snd weights) = 100"
proof -
  have eq: "calculate_completeness has_field event =
      (sum_list (present_weights has_field event weights), absent_fields has_field event weights)"
    by (simp add: calculate_completeness_def completeness_loop_acc)
  have bd: "0 \<le> sum_list (present_weights has_field event weights)
      \<and> sum_list (present_weights has_field event weights) \<le> 100"
    using present_weights_bounds [OF weights_nonneg, of has_field event] weights_total by simp
  have tbl: "map fst weights = [''title'', ''start_date'', ''event_type'', ''format'',
      ''description'', ''location'', ''organizer.name'', ''registration.url'']
      \<and> map snd weights = [20, 20, 10, 10, 10, 10, 10, 10]"
    by (simp add: weights_def)
  show ?thesis using eq bd tbl weights_total by simp
qed

theorem calculate_completeness_witness:
  "calculate_completeness (\<lambda>e f. f \<in> set e) [''title'', ''start_date'', ''format'']
     = (50, [''event_type'', ''description'', ''location'', ''organizer.name'', ''registration.url''])"
  using calculate_completeness_correct [of "\<lambda>e f. f \<in> set e" "[''title'', ''start_date'', ''format'']"]
  by (simp add: calculate_completeness_def weights_def)

section \<open>Properties of format detection\<close>

text \<open>\<open>contains\<close> is the substring test: the keyword stands somewhere in the text.\<close>

lemma starts_with_iff: "starts_with kw s \<longleftrightarrow> (\<exists>post. s = kw @ post)"
proof
  assume "starts_with kw s"
  then have "s = kw @ drop (length kw) s"
    by (metis append_take_drop_id starts_with_def)
  then show "\<exists>post. s = kw @ post" ..
next
  assume "\<exists>post. s = kw @ post"
  then show "starts_with kw s" by (auto simp: starts_with_def)
qed

lemma contains_iff: "contains kw s \<longleftrightarrow> (\<exists>pre post. s = pre @ kw @ post)"
proof (induction s)
  case Nil
  then show ?case by auto
next
  case (Cons c cs)
  show ?case
  proof
    assume "contains kw (c # cs)"
    then consider "starts_with kw (c # cs)" | "contains kw cs" by auto
    then show "\<exists>pre post. c # cs = pre @ kw @ post"
    proof cases
      case 1
      then obtain post where "c # cs = kw @ post" using starts_with_iff by blast
      then have "c # cs = [] @ kw @ post" by simp
      then show ?thesis by blast
    next
      case 2
      then obtain pre post where "cs = pre @ kw @ post" using Cons.IH by blast
      then have "c # cs = (c # pre) @ kw @ post" by simp
      then show ?thesis by blast
    qed
  next
    assume "\<exists>pre post. c # cs = pre @ kw @ post"
    then obtain pre post where e: "c # cs = pre @ kw @ post" by blast
    show "contains kw (c # cs)"
    proof (cases pre)
      case Nil
      with e have "starts_with kw (c # cs)" using starts_with_iff by auto
      then show ?thesis by simp
    next
      case (Cons p pre')
      with e have "cs = pre' @ kw @ post" by simp
      then have "contains kw cs" using Cons.IH by blast
      then show ?thesis by simp
    qed
  qed
qed

lemma any_kw_in_iff: "any_kw_in kws s \<longleftrightarrow> (\<exists>kw \<in> set kws. contains kw s)"
  by (simp add: any_kw_in_def list_ex_iff)

lemmas eval_text =
  get_text_def lower_def lower_char_def any_kw_in_def FORMAT_KEYWORDS_def starts_with_def

text \<open>
  C2. Format detection looks for hybrid keywords first, then online keywords, then
  in-person keywords, and the first category with a keyword in the lowercased text wins.
  In particular a text that holds both a hybrid keyword and an online keyword is
  classified hybrid, never online; so is every text in which, lowercased, both "hybrid"
  and "zoom" stand somewhere.
\<close>

theorem detect_format_priority:
  "(any_kw_in (FORMAT_KEYWORDS ''hybrid'') (lower (get_text element))
      \<longrightarrow> detect_format element = ''hybrid'')
   \<and> (\<not> any_kw_in (FORMAT_KEYWORDS ''hybrid'') (lower (get_text element))
      \<and> any_kw_in (FORMAT_KEYWORDS ''online'') (lower (get_text element))
      \<longrightarrow> detect_format element = ''online'')
   \<and> (\<not> any_kw_in (FORMAT_KEYWORDS ''hybrid'') (lower (get_text element))
      \<and> \<not> any_kw_in (FORMAT_KEYWORDS ''online'') (lower (get_text element))
      \<and> any_kw_in (FORMAT_KEYWORDS ''in-person'') (lower (get_text element))
      \<longrightarrow> detect_format element = ''in-person'')
   \<and> ((\<exists>h \<in> set (FORMAT_KEYWORDS ''hybrid''). contains h (lower (get_text element)))
      \<and> (\<exists>k \<in> set (FORMAT_KEYWORDS ''online''). contains k (lower (get_text element)))
      \<longrightarrow> detect_format element = ''hybrid'' \<and> detect_format element \<noteq> ''online'')
   \<and> ((\<exists>pre post. lower (get_text element) = pre @ ''hybrid'' @ post)
      \<and> (\<exists>pre post. lower (get_text element) = pre @ ''zoom'' @ post)
      \<longrightarrow> detect_format element = ''hybrid'' \<and> detect_format element \<noteq> ''online'')"
proof -
  let ?t = "lower (get_text element)"
  have first: "any_kw_in (FORMAT_KEYWORDS ''hybrid'') ?t \<longrightarrow> detect_format element = ''hybrid''"
    by (simp add: detect_format_def Let_def)
  have second: "\<not> any_kw_in (FORMAT_KEYWORDS ''hybrid'') ?t \<and> any_kw_in (FORMAT_KEYWORDS ''online'') ?t
      \<longrightarrow> detect_format element = ''online''"
    by (simp add: detect_format_def Let_def)
  have third: "\<not> any_kw_in (FORMAT_KEYWORDS ''hybrid'') ?t \<and> \<not> any_kw_in (FORMAT_KEYWORDS ''online'') ?t
      \<and> any_kw_in (FORMAT_KEYWORDS ''in-person'') ?t \<longrightarrow> detect_format element = ''in-person''"
    by (simp add: detect_format_def Let_def)
  have both: "(\<exists>h \<in> set (FORMAT_KEYWORDS ''hybrid''). contains h ?t)
      \<and> (\<exists>k \<in> set (FORMAT_KEYWORDS ''online''). contains k ?t)
      \<longrightarrow> detect_format element = ''hybrid'' \<and> detect_format element \<noteq> ''online''"
    using first by (simp add: any_kw_in_iff)
  have "''hybrid'' \<in> set (FORMAT_KEYWORDS ''hybrid'')"
    by (simp add: FORMAT_KEYWORDS_def)
  then have example: "(\<exists>pre post. ?t = pre @ ''hybrid'' @ post)
      \<and> (\<exists>pre post. ?t = pre @ ''zoom'' @ post)
      \<longrightarrow> detect_format element = ''hybrid'' \<and> detect_format element \<noteq> ''online''"
    using first contains_iff [of "''hybrid''" ?t] any_kw_in_iff [of "FORMAT_KEYWORDS ''hybrid''" ?t]
    by auto
  show ?thesis
    by (intro conjI) (rule first, rule second, rule third, rule both, rule example)
qed

theorem detect_format_priority_witness:
  "contains ''hybrid'' (lower (get_text frag_hybrid_zoom))
   \<and> contains ''zoom'' (lower (get_text frag_hybrid_zoom))
   \<and> detect_format frag_hybrid_zoom = ''hybrid''
   \<and> \<not> any_kw_in (FORMAT_KEYWORDS ''hybrid'') (lower (get_text frag_webinar))
   \<and> any_kw_in (FORMAT_KEYWORDS ''online'') (lower (get_text frag_webinar))
   \<and> detect_format frag_webinar = ''online''
   \<and> \<not> any_kw_in (FORMAT_KEYWORDS ''hybrid'') (lower (get_text frag_venue_text))
   \<and> \<not> any_kw_in (FORMAT_KEYWORDS ''online'') (lower (get_text frag_venue_text))
   \<and> any_kw_in (FORMAT_KEYWORDS ''in-person'') (lower (get_text frag_venue_text))
   \<and> detect_format frag_venue_text = ''in-person''"
proof -
  have h: "contains ''hybrid'' (lower (get_text frag_hybrid_zoom))"
    by (simp add: frag_hybrid_zoom_def eval_text)
  have z: "contains ''zoom'' (lower (get_text frag_hybrid_zoom))"
    by (simp add: frag_hybrid_zoom_def eval_text)
  have w: "\<not> any_kw_in (FORMAT_KEYWORDS ''hybrid'') (lower (get_text frag_webinar))
      \<and> any_kw_in (FORMAT_KEYWORDS ''online'') (lower (get_text frag_webinar))"
    by (simp add: frag_webinar_def eval_text)
  have v: "\<not> any_kw_in (FORMAT_KEYWORDS ''hybrid'') (lower (get_text frag_venue_text))
      \<and> \<not> any_kw_in (FORMAT_KEYWORDS ''online'') (lower (get_text frag_venue_text))
      \<and> any_kw_in (FORMAT_KEYWORDS ''in-person'') (lower (get_text frag_venue_text))"
    by (simp add: frag_venue_text_def eval_text)
  have ha: "any_kw_in (FORMAT_KEYWORDS ''hybrid'') (lower (get_text frag_hybrid_zoom))"
    by (simp add: frag_hybrid_zoom_def eval_text)
  have r1: "detect_format frag_hybrid_zoom = ''hybrid''"
    using detect_format_priority [of frag_hybrid_zoom, THEN conjunct1] ha by simp
  have r2: "detect_format frag_webinar = ''online''"
    using detect_format_priority [of frag_webinar, THEN conjunct2, THEN conjunct1] w by simp
  have r3: "detect_format frag_venue_text = ''in-person''"
    using detect_format_priority [of frag_venue_text, THEN conjunct2, THEN conjunct2, THEN conjunct1] v
    by simp
  show ?thesis
    using h z w v r1 r2 r3 by simp
qed

text \<open>
  C6, as the code has it. For every fragment whose text matches no format keyword, the
  detected format is in-person exactly when a location-like sub-element exists and online
  otherwise. The result is the bare format string: nothing in it tells a defaulted format
  from a stated one.
\<close>

theorem detect_format_default:
  assumes "matches_no_keyword element"
  shows "detect_format element =
           (if select_one location_selectors element \<noteq> None then ''in-person'' else ''online'')"
  using assms by (simp add: detect_format_def matches_no_keyword_def Let_def)

theorem detect_format_default_witness:
  "matches_no_keyword frag_located \<and> select_one location_selectors frag_located \<noteq> None
   \<and> detect_format frag_located = ''in-person''
   \<and> matches_no_keyword frag_no_keyword \<and> select_one location_selectors frag_no_keyword = None
   \<and> detect_format frag_no_keyword = ''online''"
proof -
  have a: "matches_no_keyword frag_located"
    by (simp add: matches_no_keyword_def frag_located_def eval_text)
  have b: "select_one location_selectors frag_located \<noteq> None"
    by (simp add: frag_located_def select_one_def location_selectors_def)
  have c: "matches_no_keyword frag_no_keyword"
    by (simp add: matches_no_keyword_def frag_no_keyword_def eval_text)
  have d: "select_one location_selectors frag_no_keyword = None"
    by (simp add: frag_no_keyword_def select_one_def location_selectors_def)
  show ?thesis
    using detect_format_default [OF a] detect_format_default [OF c] a b c d by simp
qed

text \<open>
  The claim C6 as stated asks for a marker that tells the defaulted result from a stated
  one. A fragment that says "Online" and a fragment with no keyword at all get the very
  same result.
\<close>

theorem detect_format_inferred_flag_counterexample:
  "any_kw_in (FORMAT_KEYWORDS ''online'') (lower (get_text frag_stated_online))
   \<and> matches_no_keyword frag_no_keyword
   \<and> detect_format frag_stated_online = ''online''
   \<and> detect_format frag_no_keyword = ''online''"
  by (simp add: matches_no_keyword_def frag_no_keyword_def frag_stated_online_def eval_text
      detect_format_def select_one_def location_selectors_def)

section \<open>Properties of characters and stripping\<close>

lemmas eval_strip = strip_def is_space_def whitespace_def is_continuation_def

lemma chars_nonempty: "ch \<in> set (chars s) \<Longrightarrow> ch \<noteq> []"
  by (induction s rule: chars.induct) auto

lemma concat_chars: "concat (chars s) = s"
  by (induction s rule: chars.induct) auto

lemma chars_Nil_iff: "chars s = [] \<longleftrightarrow> s = []"
  by (cases s) auto

lemma chars_append:
  "s2 = [] \<or> \<not> is_continuation (hd s2) \<Longrightarrow> chars (s1 @ s2) = chars s1 @ chars s2"
proof (induction s1 rule: chars.induct)
  case 1
  then show ?case by simp
next
  case (2 c cs)
  show ?case
  proof (cases "\<forall>x \<in> set cs. is_continuation x")
    case True
    then have t: "takeWhile is_continuation cs = cs" and d: "dropWhile is_continuation cs = []"
      by simp_all
    have t2: "takeWhile is_continuation (cs @ s2) = cs"
      using True 2(2) by (cases s2) (simp_all add: takeWhile_append2)
    have d2: "dropWhile is_continuation (cs @ s2) = s2"
      using True 2(2) by (cases s2) (simp_all add: dropWhile_append2)
    show ?thesis by (simp add: t d t2 d2)
  next
    case False
    then obtain x where x: "x \<in> set cs" "\<not> is_continuation x" by blast
    have t2: "takeWhile is_continuation (cs @ s2) = takeWhile is_continuation cs"
      using x by (rule takeWhile_append1)
    have d2: "dropWhile is_continuation (cs @ s2) = dropWhile is_continuation cs @ s2"
      using x by (rule dropWhile_append1)
    show ?thesis using 2 by (simp add: t2 d2)
  qed
qed

lemma chars_of_chunks:
  "ch \<noteq> [] \<Longrightarrow> \<forall>x \<in> set (tl ch). is_continuation x \<Longrightarrow> \<forall>r \<in> set rest. later_ok r
     \<Longrightarrow> chars (concat (ch # rest)) = ch # rest"
proof (induction rest arbitrary: ch)
  case Nil
  then obtain c t where ch: "ch = c # t" by (cases ch) auto
  with Nil have "\<forall>x \<in> set t. is_continuation x" by simp
  then have tw: "takeWhile is_continuation t = t" and dw: "dropWhile is_continuation t = []"
    by simp_all
  show ?case by (simp add: ch tw dw)
next
  case (Cons r rest)
  from Cons.prems obtain c t where ch: "ch = c # t" by (cases ch) auto
  from Cons.prems have r: "r \<noteq> []" "\<not> is_continuation (hd r)" "\<forall>x \<in> set (tl r). is_continuation x"
    by (simp_all add: later_ok_def)
  from Cons.prems ch have t: "\<forall>x \<in> set t. is_continuation x" by simp
  obtain d u where ru: "r = d # u" using r(1) by (cases r) auto
  have tw: "takeWhile is_continuation (t @ concat (r # rest)) = t"
    using t r(2) ru by (simp add: takeWhile_append2)
  have dw: "dropWhile is_continuation (t @ concat (r # rest)) = concat (r # rest)"
    using t r(2) ru by (simp add: dropWhile_append2)
  have ih: "chars (concat (r # rest)) = r # rest"
    using Cons.IH [of r] r Cons.prems(3) by simp
  show ?case using ch tw dw ih by simp
qed

lemma chars_later_ok:
  "s = [] \<or> \<not> is_continuation (hd s) \<Longrightarrow> \<forall>r \<in> set (chars s). later_ok r"
proof (induction s rule: chars.induct)
  case 1
  then show ?case by simp
next
  case (2 c cs)
  have "dropWhile is_continuation cs = [] \<or> \<not> is_continuation (hd (dropWhile is_continuation cs))"
    by (metis hd_dropWhile)
  then have "\<forall>r \<in> set (chars (dropWhile is_continuation cs)). later_ok r"
    by (rule 2(1))
  moreover have "later_ok (c # takeWhile is_continuation cs)"
    using 2(2) by (auto simp: later_ok_def dest: set_takeWhileD)
  ultimately show ?case by simp
qed

lemma chars_take: "chars (concat (take n (chars s))) = take n (chars s)"
proof (cases s)
  case Nil
  then show ?thesis by simp
next
  case (Cons c cs)
  show ?thesis
  proof (cases n)
    case 0
    then show ?thesis by simp
  next
    case (Suc m)
    have l: "\<forall>r \<in> set (chars (dropWhile is_continuation cs)). later_ok r"
      by (rule chars_later_ok) (metis hd_dropWhile)
    then have l': "\<forall>r \<in> set (take m (chars (dropWhile is_continuation cs))). later_ok r"
      by (meson in_set_takeD)
    have "chars (concat ((c # takeWhile is_continuation cs) # take m (chars (dropWhile is_continuation cs))))
        = (c # takeWhile is_continuation cs) # take m (chars (dropWhile is_continuation cs))"
      by (rule chars_of_chunks) (use l' in \<open>auto dest: set_takeWhileD\<close>)
    then show ?thesis using Cons Suc by simp
  qed
qed

lemma length_slice_chars: "length (chars (slice_chars n s)) \<le> n"
  by (simp add: slice_chars_def chars_take)

lemma slice_chars_Nil_iff: "0 < n \<Longrightarrow> slice_chars n s = [] \<longleftrightarrow> s = []"
  by (cases s; cases n) (simp_all add: slice_chars_def)

lemma is_space_start: "is_space ch \<Longrightarrow> ch \<noteq> [] \<and> \<not> is_continuation (hd ch)"
  by (auto simp: is_space_def whitespace_def is_continuation_def)

lemma strip_Nil_iff: "strip s = [] \<longleftrightarrow> (\<forall>ch \<in> set (chars s). is_space ch)"
proof
  assume "strip s = []"
  then have "\<forall>ch \<in> set (rev (dropWhile is_space (rev (dropWhile is_space (chars s))))). ch = []"
    by (simp add: strip_def)
  then have "\<forall>ch \<in> set (dropWhile is_space (rev (dropWhile is_space (chars s)))). ch = []"
    by simp
  moreover have "\<forall>ch \<in> set (dropWhile is_space (rev (dropWhile is_space (chars s)))). ch \<noteq> []"
  proof
    fix ch
    assume "ch \<in> set (dropWhile is_space (rev (dropWhile is_space (chars s))))"
    then have "ch \<in> set (rev (dropWhile is_space (chars s)))" by (rule set_dropWhileD)
    then have "ch \<in> set (dropWhile is_space (chars s))" by simp
    then have "ch \<in> set (chars s)" by (rule set_dropWhileD)
    then show "ch \<noteq> []" by (rule chars_nonempty)
  qed
  ultimately have "dropWhile is_space (rev (dropWhile is_space (chars s))) = []"
    by (metis hd_in_set)
  then have "\<forall>ch \<in> set (dropWhile is_space (chars s)). is_space ch"
    by simp
  then have "dropWhile is_space (chars s) = []"
    by (metis hd_dropWhile hd_in_set)
  then show "\<forall>ch \<in> set (chars s). is_space ch" by simp
next
  assume "\<forall>ch \<in> set (chars s). is_space ch"
  then have d: "dropWhile is_space (chars s) = []" by simp
  show "strip s = []" unfolding strip_def d by simp
qed

lemma space_only_start:
  assumes "\<forall>ch \<in> set (chars s). is_space ch"
  shows "s = [] \<or> \<not> is_continuation (hd s)"
proof (cases s)
  case Nil
  then show ?thesis by simp
next
  case (Cons c cs)
  with assms have "is_space (c # takeWhile is_continuation cs)" by simp
  from is_space_start [OF this] Cons show ?thesis by simp
qed

lemma spaces_concat:
  "\<forall>s \<in> set ss. \<forall>ch \<in> set (chars s). is_space ch
     \<Longrightarrow> \<forall>ch \<in> set (chars (concat ss)). is_space ch"
proof (induction ss)
  case Nil
  then show ?case by simp
next
  case (Cons s ss)
  then have r: "\<forall>ch \<in> set (chars (concat ss)). is_space ch" by simp
  have "chars (s @ concat ss) = chars s @ chars (concat ss)"
    by (rule chars_append) (rule space_only_start [OF r])
  with Cons.prems r show ?case by auto
qed

section \<open>Properties of title extraction\<close>

lemma get_text_strip_Nil_iff:
  "get_text_strip element = [] \<longleftrightarrow>
     (\<forall>s \<in> set (strings element). \<forall>ch \<in> set (chars s). is_space ch)"
  by (auto simp: get_text_strip_def strip_Nil_iff)

lemma strings_descendant:
  "d \<in> set (descendants element) \<Longrightarrow> set (strings d) \<subseteq> set (strings element)"
proof (induction element)
  case (Text s)
  then show ?case by simp
next
  case (Tag name classes attrs children)
  from Tag.prems obtain child where c: "child \<in> set children"
    and d: "d = child \<or> d \<in> set (descendants child)"
    by auto
  from d have "set (strings d) \<subseteq> set (strings child)"
    using Tag.IH [OF c] by auto
  with c show ?case by auto
qed

lemma select_one_descendant:
  "select_one sels element = Some d \<Longrightarrow> d \<in> set (descendants element)"
  by (auto simp: select_one_def find_Some_iff)

lemma blank_descendant:
  assumes "get_text_strip element = []" and "d \<in> set (descendants element)"
  shows "strip (get_text d) = []"
proof -
  have "\<forall>s \<in> set (strings d). \<forall>ch \<in> set (chars s). is_space ch"
    using assms strings_descendant [of d element] by (auto simp: get_text_strip_Nil_iff)
  then have "\<forall>ch \<in> set (chars (concat (strings d))). is_space ch"
    by (rule spaces_concat)
  then show ?thesis by (simp add: strip_Nil_iff get_text_def)
qed

lemma title_loop_None_iff:
  "title_loop sels element = None \<longleftrightarrow>
     list_all (\<lambda>selector. case select_one [selector] element of
                             None \<Rightarrow> True
                           | Some title_elem \<Rightarrow> strip (get_text title_elem) = []) sels"
  by (induction sels) (auto split: option.splits)

lemma title_loop_Some_nonempty: "title_loop sels element = Some t \<Longrightarrow> t \<noteq> []"
  by (induction sels) (auto split: option.splits if_splits)

lemma title_loop_blank:
  "get_text_strip element = [] \<Longrightarrow> title_loop sels element = None"
  by (induction sels) (auto split: option.splits dest: select_one_descendant blank_descendant)

text \<open>
  C7. Title extraction always returns a string. When all structural selectors fail, the
  result is the first 200 characters (characters, not bytes) of the fragment's flattened
  text with every text node stripped of white space, Unicode white space included. The
  result is empty only if the fragment has no text at all, that is, no text node holds a
  character other than white space (and in that case it is indeed empty). The function
  has no raising path: an absent title is the empty string.
\<close>

theorem extract_title_fallback:
  "(selectors_fail element \<longrightarrow>
      extract_title element = slice_chars 200 (get_text_strip element))
   \<and> slice_chars 200 (get_text_strip element)
       = concat (take 200 (chars (get_text_strip element)))
   \<and> len (slice_chars 200 (get_text_strip element)) \<le> 200
   \<and> (extract_title element = [] \<longleftrightarrow> get_text_strip element = [])
   \<and> (get_text_strip element = [] \<longleftrightarrow>
        (\<forall>s \<in> set (strings element). \<forall>ch \<in> set (chars s). is_space ch))"
proof -
  have a: "selectors_fail element \<longrightarrow>
      extract_title element = slice_chars 200 (get_text_strip element)"
    by (simp add: selectors_fail_def extract_title_def title_loop_None_iff [symmetric])
  have s: "slice_chars 200 (get_text_strip element)
       = concat (take 200 (chars (get_text_strip element)))"
    by (simp add: slice_chars_def)
  have l: "len (slice_chars 200 (get_text_strip element)) \<le> 200"
    by (simp add: len_def length_slice_chars)
  have b: "extract_title element = [] \<longleftrightarrow> get_text_strip element = []"
  proof
    assume e: "extract_title element = []"
    show "get_text_strip element = []"
    proof (cases "title_loop title_selectors element")
      case None
      with e have "slice_chars 200 (get_text_strip element) = []"
        by (simp add: extract_title_def)
      then show ?thesis by (simp add: slice_chars_Nil_iff)
    next
      case (Some t)
      with e title_loop_Some_nonempty [OF Some] show ?thesis by (simp add: extract_title_def)
    qed
  next
    assume g: "get_text_strip element = []"
    have "slice_chars 200 [] = []" by (simp add: slice_chars_def)
    with g show "extract_title element = []"
      by (simp add: extract_title_def title_loop_blank)
  qed
  show ?thesis
    by (intro conjI) (rule a, rule s, rule l, rule b, rule get_text_strip_Nil_iff)
qed

lemmas eval_select = select_one_def title_selectors_def get_text_def get_text_strip_def
  eval_strip

theorem extract_title_fallback_witness:
  "selectors_fail frag_plain \<and> extract_title frag_plain = ''Talknow''
   \<and> strings frag_blank = [''  '', '' '']
   \<and> extract_title frag_blank = []
   \<and> strings frag_nbsp = [[CHR 0xC2, CHR 0xA0], [CHR 0xE2, CHR 0x80, CHR 0x83, CHR 0x20]]
   \<and> extract_title frag_nbsp = []
   \<and> selectors_fail frag_cafe
   \<and> extract_title frag_cafe = ''Caf'' @ [CHR 0xC3, CHR 0xA9]
   \<and> len (extract_title frag_cafe) = 4"
proof -
  have a: "selectors_fail frag_plain"
    by (simp add: selectors_fail_def frag_plain_def eval_select)
  have b: "slice_chars 200 (get_text_strip frag_plain) = ''Talknow''"
    by (simp add: frag_plain_def eval_select slice_chars_def)
  have c: "\<forall>s \<in> set (strings frag_blank). \<forall>ch \<in> set (chars s). is_space ch"
    by (simp add: frag_blank_def eval_strip)
  have d: "\<forall>s \<in> set (strings frag_nbsp). \<forall>ch \<in> set (chars s). is_space ch"
    by (simp add: frag_nbsp_def eval_strip)
  have e: "selectors_fail frag_cafe"
    by (simp add: selectors_fail_def frag_cafe_def eval_select)
  have f: "slice_chars 200 (get_text_strip frag_cafe) = ''Caf'' @ [CHR 0xC3, CHR 0xA9]"
    by (simp add: frag_cafe_def eval_select slice_chars_def)
  have g: "len (''Caf'' @ [CHR 0xC3, CHR 0xA9]) = 4"
    by (simp add: len_def is_continuation_def)
  show ?thesis
    using extract_title_fallback [of frag_plain] extract_title_fallback [of frag_blank]
      extract_title_fallback [of frag_nbsp] extract_title_fallback [of frag_cafe]
      a b c d e f g
    by (simp add: frag_blank_def frag_nbsp_def)
qed

section \<open>Properties of location extraction\<close>

lemma zoom_link_href:
  assumes "select_one zoom_selectors element = Some zoom_link"
  shows "\<exists>href. get_attr zoom_link ''href'' = Some href
           \<and> (contains ''zoom'' href \<or> contains ''meet'' href)"
proof -
  from assms have m: "list_ex (\<lambda>sel. matches sel zoom_link) zoom_selectors"
    by (auto simp: select_one_def find_Some_iff)
  show ?thesis
  proof (cases zoom_link)
    case (Text s)
    with m show ?thesis by (simp add: zoom_selectors_def)
  next
    case (Tag tag classes attrs children)
    with m show ?thesis
      by (auto simp: zoom_selectors_def split: option.splits)
  qed
qed

lemma split_on_nonempty: "split_on sep s \<noteq> []"
  by (induction s) (auto split: list.splits)

lemma split_on_length: "2 \<le> length (split_on sep s) \<longleftrightarrow> sep \<in> set s"
proof (induction s)
  case Nil
  then show ?case by simp
next
  case (Cons c cs)
  then show ?case
    using split_on_nonempty [of sep cs]
    by (cases "split_on sep cs") auto
qed

text \<open>
  C8. \<^verbatim>\<open>_extract_location\<close> never raises. When a location-labelled sub-element exists,
  its stripped text is the venue, and city and country are set, to the stripped first and
  last comma-separated segments, if and only if the text splits into at least two segments
  (that is, holds a comma: \<open>split_on_length\<close>). Independently, the first link whose
  target contains "zoom" or "meet" is recorded as the online URL, whether or not a venue
  was found.
\<close>

theorem extract_location_correct:
  "case extract_location element of
     Inl e \<Rightarrow> False
   | Inr loc \<Rightarrow>
       (case select_one location_selectors element of
          None \<Rightarrow> loc ''venue'' = None \<and> loc ''city'' = None
                    \<and> loc ''country'' = None
        | Some loc_elem \<Rightarrow>
            loc ''venue'' = Some (get_text_strip loc_elem)
            \<and> (if 2 \<le> length (split_on CHR '','' (get_text_strip loc_elem))
                then loc ''city'' = Some (strip (hd (split_on CHR '','' (get_text_strip loc_elem))))
                   \<and> loc ''country'' = Some (strip (last (split_on CHR '','' (get_text_strip loc_elem))))
                else loc ''city'' = None \<and> loc ''country'' = None))
       \<and> (case select_one zoom_selectors element of
            None \<Rightarrow> loc ''online_url'' = None
          | Some zoom_link \<Rightarrow>
              loc ''online_url'' = get_attr zoom_link ''href''
              \<and> (\<exists>href. get_attr zoom_link ''href'' = Some href
                     \<and> (contains ''zoom'' href \<or> contains ''meet'' href)))"
proof (cases "select_one zoom_selectors element")
  case None
  then show ?thesis
    by (auto simp: extract_location_def Let_def hd_map last_map split_on_nonempty
        split: option.splits)
next
  case (Some zoom_link)
  from zoom_link_href [OF Some] obtain href where
    h: "get_attr zoom_link ''href'' = Some href"
    and z: "contains ''zoom'' href \<or> contains ''meet'' href"
    by blast
  from Some h z show ?thesis
    by (auto simp: extract_location_def Let_def hd_map last_map split_on_nonempty
        split: option.splits)
qed

lemmas eval_loc = select_one_def location_selectors_def zoom_selectors_def get_text_strip_def
  eval_strip starts_with_def

theorem extract_location_correct_witness:
  "(case extract_location frag_hybrid_venue of
      Inl e \<Rightarrow> False
    | Inr loc \<Rightarrow>
        loc ''venue'' = Some ''Freud Museum, London , UK''
        \<and> loc ''city'' = Some ''Freud Museum''
        \<and> loc ''country'' = Some ''UK''
        \<and> loc ''online_url'' = Some ''https://zoom.us/j/1'')
   \<and> (case extract_location frag_venue_only of
      Inl e \<Rightarrow> False
    | Inr loc \<Rightarrow>
        loc ''venue'' = Some ''Main Hall'' \<and> loc ''city'' = None
        \<and> loc ''country'' = None \<and> loc ''online_url'' = None)"
proof -
  have a: "select_one location_selectors frag_hybrid_venue
             = Some (Tag ''span'' [''venue''] [] [Text '' Freud Museum, London , UK ''])"
    by (simp add: frag_hybrid_venue_def eval_loc)
  have b: "select_one zoom_selectors frag_hybrid_venue
             = Some (Tag ''a'' [] [(''href'', ''https://zoom.us/j/1'')] [Text ''Join''])"
    by (simp add: frag_hybrid_venue_def eval_loc)
  have c: "get_text_strip (Tag ''span'' [''venue''] [] [Text '' Freud Museum, London , UK ''])
             = ''Freud Museum, London , UK''"
    by (simp add: eval_loc)
  have d: "split_on CHR '','' ''Freud Museum, London , UK''
             = [''Freud Museum'', '' London '', '' UK'']"
    by simp
  have e: "select_one location_selectors frag_venue_only
             = Some (Tag ''p'' [''location''] [] [Text ''Main Hall''])"
    by (simp add: frag_venue_only_def eval_loc)
  have f: "select_one zoom_selectors frag_venue_only = None"
    by (simp add: frag_venue_only_def eval_loc)
  have g: "get_text_strip (Tag ''p'' [''location''] [] [Text ''Main Hall'']) = ''Main Hall''"
    by (simp add: eval_loc)
  have h: "split_on CHR '','' ''Main Hall'' = [''Main Hall'']"
    by simp
  have i: "strip ''Freud Museum'' = ''Freud Museum'' \<and> strip '' UK'' = ''UK''"
    by (simp add: eval_strip)
  show ?thesis
    using extract_location_correct [of frag_hybrid_venue]
      extract_location_correct [of frag_venue_only]
    by (simp add: a b c d e f g h i split: sum.splits)
qed

section \<open>Properties of date extraction\<close>







section \<open>Properties of the assembler\<close>









section \<open>Properties of merging\<close>

lemma present_weights_mono:
  assumes "\<forall>fw \<in> set table. 0 \<le> snd fw"
    and "\<And>f. hf1 e1 f \<Longrightarrow> hf2 e2 f"
  shows "sum_list (present_weights hf1 e1 table) \<le> sum_list (present_weights hf2 e2 table)"
  using assms(1)
proof (induction table)
  case Nil
  then show ?case by (simp add: present_weights_def)
next
  case (Cons fw table)
  then have ih: "sum_list (present_weights hf1 e1 table) \<le> sum_list (present_weights hf2 e2 table)"
    and w: "0 \<le> snd fw"
    by simp_all
  show ?case
    using ih w assms(2) [of "fst fw"] by (auto simp: present_weights_def)
qed

lemma score_scored:
  "completeness_score (scored values time) = sum_list (present_weights has_field_spec values weights)"
  by (simp add: scored_def calculate_completeness_def completeness_loop_acc)

lemma merge_field_present:
  "has_field_spec (merge_field a b) f
     \<longleftrightarrow> has_field_spec (field_values a) f \<or> has_field_spec (field_values b) f"
  by (auto simp: merge_field_def has_field_spec_def)

lemma merge_score_ge:
  "completeness_score (scored (field_values a) (scraped_at a)) \<le> completeness_score (merge_duplicates a b)
   \<and> completeness_score (scored (field_values b) (scraped_at b)) \<le> completeness_score (merge_duplicates a b)"
  unfolding merge_duplicates_def score_scored
  using present_weights_mono [OF weights_nonneg, of has_field_spec "field_values a" has_field_spec "merge_field a b"]
    present_weights_mono [OF weights_nonneg, of has_field_spec "field_values b" has_field_spec "merge_field a b"]
  by (simp add: merge_field_present)

text \<open>
  C5. Merging two scored events gives a record whose completeness score is at least the
  score of either member; so merging A (score 40) and B (score 80) gives a score of at
  least 80. No field present in B (or in A) is absent from the result. Every field of the
  result is the value of one of the two members, never a combination; when both members
  have the field present, it is the value of the more recently scraped one. The missing
  fields of the result are those missing from the merged record.
\<close>

theorem merge_duplicates_monotone:
  assumes "is_scored a" and "is_scored b"
  shows "max (completeness_score a) (completeness_score b) \<le> completeness_score (merge_duplicates a b)
   \<and> (completeness_score a = 40 \<and> completeness_score b = 80
        \<longrightarrow> 80 \<le> completeness_score (merge_duplicates a b))
   \<and> (\<forall>f. has_field_spec (field_values b) f \<longrightarrow>
          has_field_spec (field_values (merge_duplicates a b)) f)
   \<and> (\<forall>f. has_field_spec (field_values a) f \<longrightarrow>
          has_field_spec (field_values (merge_duplicates a b)) f)
   \<and> (\<forall>f. field_values (merge_duplicates a b) f = field_values a f
          \<or> field_values (merge_duplicates a b) f = field_values b f)
   \<and> (\<forall>f. has_field_spec (field_values a) f \<and> has_field_spec (field_values b) f \<longrightarrow>
          field_values (merge_duplicates a b) f
            = (if scraped_at a < scraped_at b then field_values b f else field_values a f))
   \<and> missing_fields (merge_duplicates a b)
        = absent_fields has_field_spec (field_values (merge_duplicates a b)) weights
   \<and> is_scored (merge_duplicates a b)"
proof -
  have sa: "completeness_score a = completeness_score (scored (field_values a) (scraped_at a))"
    using assms(1) by (simp add: is_scored_def)
  have sb: "completeness_score b = completeness_score (scored (field_values b) (scraped_at b))"
    using assms(2) by (simp add: is_scored_def)
  have m: "max (completeness_score a) (completeness_score b) \<le> completeness_score (merge_duplicates a b)"
    using merge_score_ge [of a b] sa sb by simp
  have fv: "field_values (merge_duplicates a b) = merge_field a b"
    by (simp add: merge_duplicates_def scored_def)
  have p: "\<forall>f. has_field_spec (field_values (merge_duplicates a b)) f
      \<longleftrightarrow> has_field_spec (field_values a) f \<or> has_field_spec (field_values b) f"
    by (simp add: fv merge_field_present)
  have c: "\<forall>f. field_values (merge_duplicates a b) f = field_values a f
          \<or> field_values (merge_duplicates a b) f = field_values b f"
    by (simp add: fv merge_field_def)
  have r: "\<forall>f. has_field_spec (field_values a) f \<and> has_field_spec (field_values b) f \<longrightarrow>
          field_values (merge_duplicates a b) f
            = (if scraped_at a < scraped_at b then field_values b f else field_values a f)"
    by (simp add: fv merge_field_def)
  have mf: "missing_fields (merge_duplicates a b)
        = absent_fields has_field_spec (field_values (merge_duplicates a b)) weights"
    by (simp add: merge_duplicates_def scored_def calculate_completeness_def completeness_loop_acc)
  have s: "is_scored (merge_duplicates a b)"
    by (simp add: is_scored_def merge_duplicates_def scored_def)
  show ?thesis using m p c r mf s by auto
qed

lemmas eval_score = scored_def calculate_completeness_def weights_def has_field_spec_def
  fields_of_def

theorem merge_duplicates_monotone_witness:
  "is_scored event_A \<and> is_scored event_B
   \<and> completeness_score event_A = 40 \<and> completeness_score event_B = 80
   \<and> 80 \<le> completeness_score (merge_duplicates event_A event_B)
   \<and> has_field_spec (field_values event_B) ''description''
   \<and> \<not> has_field_spec (field_values event_A) ''description''
   \<and> field_values (merge_duplicates event_A event_B) ''description'' = Text_field ''Yearly meeting''
   \<and> field_values (merge_duplicates event_A event_B) ''title'' = Text_field ''Annual Conference 2025''"
proof -
  have a: "is_scored event_A" by (simp add: is_scored_def event_A_def scored_def)
  have b: "is_scored event_B" by (simp add: is_scored_def event_B_def scored_def)
  have sa: "completeness_score event_A = 40" by (simp add: event_A_def eval_score)
  have sb: "completeness_score event_B = 80" by (simp add: event_B_def eval_score)
  have d: "has_field_spec (field_values event_B) ''description''
      \<and> \<not> has_field_spec (field_values event_A) ''description''
      \<and> field_values event_A ''description'' = Text_field []
      \<and> field_values event_B ''description'' = Text_field ''Yearly meeting''"
    by (simp add: event_A_def event_B_def scored_def has_field_spec_def fields_of_def)
  have t: "has_field_spec (field_values event_B) ''title''
      \<and> has_field_spec (field_values event_A) ''title''
      \<and> field_values event_A ''title'' = Text_field ''Annual Conference 2025''
      \<and> \<not> scraped_at event_A < scraped_at event_B"
    by (simp add: event_A_def event_B_def scored_def has_field_spec_def fields_of_def)
  note m = merge_duplicates_monotone [OF a b]
  from m sa sb have g: "80 \<le> completeness_score (merge_duplicates event_A event_B)"
    by simp
  from m d have p: "has_field_spec (field_values (merge_duplicates event_A event_B)) ''description''"
    by blast
  from m have "field_values (merge_duplicates event_A event_B) ''description''
        = field_values event_A ''description''
      \<or> field_values (merge_duplicates event_A event_B) ''description''
        = field_values event_B ''description''"
    by blast
  with p d have e: "field_values (merge_duplicates event_A event_B) ''description''
      = Text_field ''Yearly meeting''"
    by (auto simp: has_field_spec_def)
  from m t have f: "field_values (merge_duplicates event_A event_B) ''title''
      = Text_field ''Annual Conference 2025''"
    by simp
  show ?thesis using a b sa sb g d e f by simp
qed

section \<open>Properties of the event filter\<close>

lemma set_insert_sorted: "set (insert_sorted cmp x ys) = insert x (set ys)"
  by (induction ys) auto

lemma set_js_sort: "set (js_sort cmp xs) = set xs"
  by (induction xs) (simp_all add: js_sort_def set_insert_sorted)

lemma missing_not_after: "\<not> truthy_str d \<Longrightarrow> \<not> on_or_after env start d"
  by (cases d) auto

lemma missing_not_before: "\<not> truthy_str d \<Longrightarrow> \<not> on_or_before env end d"
  by (cases d) auto

text \<open>
  C9. Whenever a non-empty start date or end date filter is set, every event whose
  \<^verbatim>\<open>start_date\<close> is missing (null, undefined or the empty string) is excluded from the
  filtered result, whatever the other filters, the sort order and the runtime say.
\<close>

theorem filteredEvents_excludes_undated:
  assumes "filters_startDate filters \<noteq> [] \<or> filters_endDate filters \<noteq> []"
    and "e_start_date e = Null \<or> e_start_date e = Undefined \<or> e_start_date e = Val []"
  shows "e \<notin> set (filteredEvents env evs filters sortBy)"
proof -
  from assms(2) have m: "\<not> truthy_str (e_start_date e)" by auto
  show ?thesis
  proof (cases "filters_endDate filters \<noteq> []")
    case True
    then show ?thesis
      using missing_not_before [OF m]
      by (simp add: filteredEvents_def Let_def set_js_sort)
  next
    case False
    with assms(1) have "filters_startDate filters \<noteq> []" by simp
    with False show ?thesis
      using missing_not_after [OF m]
      by (simp add: filteredEvents_def Let_def set_js_sort)
  qed
qed

theorem filteredEvents_excludes_undated_witness:
  "filters_startDate demo_filters = ''2025-01-01''
   \<and> e_start_date undated_event = Null
   \<and> undated_event \<notin> set (filteredEvents demo_env [undated_event, dated_event] demo_filters ''date'')
   \<and> filteredEvents demo_env [undated_event, dated_event] demo_filters ''date'' = [dated_event]
   \<and> filteredEvents demo_env [undated_event, dated_event]
        (demo_filters \<lparr> filters_startDate := [] \<rparr>) ''date'' = [dated_event, undated_event]"
proof -
  have a: "filters_startDate demo_filters \<noteq> [] \<or> filters_endDate demo_filters \<noteq> []"
    by (simp add: demo_filters_def)
  have b: "e_start_date undated_event = Null \<or> e_start_date undated_event = Undefined
      \<or> e_start_date undated_event = Val []"
    by (simp add: undated_event_def)
  have c: "filteredEvents demo_env [undated_event, dated_event] demo_filters ''date'' = [dated_event]"
    by (simp add: filteredEvents_def demo_filters_def undated_event_def dated_event_def
        demo_env_def js_sort_def toLowerCase_def lower_char_def starts_with_def Let_def)
  have d: "filteredEvents demo_env [undated_event, dated_event]
        (demo_filters \<lparr> filters_startDate := [] \<rparr>) ''date'' = [dated_event, undated_event]"
    by (simp add: filteredEvents_def demo_filters_def undated_event_def dated_event_def
        demo_env_def js_sort_def toLowerCase_def lower_char_def starts_with_def Let_def
        compare_events_def sort_date_def)
  show ?thesis
    using filteredEvents_excludes_undated [OF a b, of demo_env "[undated_event, dated_event]" "''date''"]
      b c d
    by (simp add: undated_event_def demo_filters_def)
qed

section \<open>Properties of the loading hook\<close>

lemmas hook_defs = fetchEvents_def try_block_def Let_def setEvents_def setLoading_def
  setError_def setLastUpdated_def get_property_def

lemma fetchEvents_loading: "loading (fetchEvents fetched st0) = False"
  by (simp add: hook_defs split: sum.splits prod.splits option.splits if_splits)

lemma fetchEvents_failure:
  assumes "payload fetched = Inl err"
  shows "events (fetchEvents fetched st0) = JArr [] \<and> error (fetchEvents fetched st0) = JStr (message err)"
proof (cases fetched)
  case (Inl e)
  with assms show ?thesis by (simp add: hook_defs)
next
  case (Inr response)
  with assms show ?thesis by (auto simp: hook_defs split: if_splits)
qed

lemma fetchEvents_data:
  assumes "payload fetched = Inr data"
  shows "fetchEvents fetched st0 = fetchEvents (ok_response data) st0"
proof (cases fetched)
  case (Inl e)
  with assms show ?thesis by simp
next
  case (Inr response)
  with assms show ?thesis
    by (auto simp: fetchEvents_def try_block_def ok_response_def Let_def split: if_splits)
qed

lemma fetchEvents_array:
  assumes "isArray data"
  shows "events (fetchEvents (ok_response data) st0) = data
       \<and> error (fetchEvents (ok_response data) st0) = JNull"
  using assms by (simp add: hook_defs ok_response_def)

lemma fetchEvents_nullish:
  assumes "data = JNull \<or> data = JUndefined"
  shows "events (fetchEvents (ok_response data) st0) = JArr []
       \<and> (\<exists>m. error (fetchEvents (ok_response data) st0) = JStr m)"
  using assms by (auto simp: hook_defs ok_response_def)

lemma fetchEvents_no_events:
  assumes "\<not> isArray data" and "data \<noteq> JNull" and "data \<noteq> JUndefined"
    and "\<not> truthy (get_optional data ''events'')"
  shows "events (fetchEvents (ok_response data) st0) = JArr []
       \<and> error (fetchEvents (ok_response data) st0) = JNull"
  using assms by (simp add: hook_defs ok_response_def)

lemma get_optional_truthy_obj:
  "truthy (get_optional data key) \<Longrightarrow> \<exists>entries. data = JObj entries"
  by (cases data) auto

lemma fetchEvents_wrapped:
  assumes "\<not> isArray data" and "truthy (get_optional data ''events'')"
  shows "events (fetchEvents (ok_response data) st0) = get_optional data ''events''
       \<and> error (fetchEvents (ok_response data) st0) = JNull"
proof -
  from get_optional_truthy_obj [OF assms(2)] obtain entries where "data = JObj entries"
    by blast
  with assms show ?thesis
    by (simp add: hook_defs ok_response_def)
qed

text \<open>
  C10, as the code has it. Whatever the fetch delivers, the hook ends with \<^verbatim>\<open>loading\<close>
  false. On a network error, a status that is not OK, or a body that is not JSON, it sets
  \<^verbatim>\<open>events\<close> to the empty array and \<^verbatim>\<open>error\<close> to the failure's message. An array
  payload becomes \<^verbatim>\<open>events\<close>, and so does the array under the \<^verbatim>\<open>events\<close> key of a
  wrapped payload, with \<^verbatim>\<open>error\<close> left null. A payload other than null that is no array
  and has no truthy \<^verbatim>\<open>events\<close> entry gives the empty array with \<^verbatim>\<open>error\<close> left null.
  The payload null gives the empty array too, but through the \<^verbatim>\<open>catch\<close> branch: reading
  its property throws, and \<^verbatim>\<open>error\<close> is set to that message. So \<^verbatim>\<open>events\<close> ends as
  an array in every case but one the statement leaves open: a wrapped payload whose
  \<^verbatim>\<open>events\<close> entry is truthy and not an array.
\<close>

theorem fetchEvents_outcome:
  "loading (fetchEvents fetched st0) = False
   \<and> (\<forall>err. payload fetched = Inl err \<longrightarrow>
          events (fetchEvents fetched st0) = JArr []
          \<and> error (fetchEvents fetched st0) = JStr (message err))
   \<and> (\<forall>data. payload fetched = Inr data \<and> isArray data \<longrightarrow>
          events (fetchEvents fetched st0) = data \<and> error (fetchEvents fetched st0) = JNull)
   \<and> (\<forall>data. payload fetched = Inr data \<and> (data = JNull \<or> data = JUndefined) \<longrightarrow>
          events (fetchEvents fetched st0) = JArr []
          \<and> (\<exists>m. error (fetchEvents fetched st0) = JStr m))
   \<and> (\<forall>data. payload fetched = Inr data \<and> \<not> isArray data \<and> data \<noteq> JNull \<and> data \<noteq> JUndefined
          \<and> \<not> truthy (get_optional data ''events'') \<longrightarrow>
          events (fetchEvents fetched st0) = JArr [] \<and> error (fetchEvents fetched st0) = JNull)
   \<and> (\<forall>data. payload fetched = Inr data \<and> \<not> isArray data
          \<and> isArray (get_optional data ''events'') \<longrightarrow>
          events (fetchEvents fetched st0) = get_optional data ''events''
          \<and> error (fetchEvents fetched st0) = JNull)
   \<and> (\<not> (\<exists>data. payload fetched = Inr data \<and> \<not> isArray data
             \<and> truthy (get_optional data ''events'')
             \<and> \<not> isArray (get_optional data ''events'')) \<longrightarrow>
          isArray (events (fetchEvents fetched st0)))"
proof -
  have arr: "\<And>v. isArray v \<Longrightarrow> truthy v"
    by (case_tac v) auto
  have c1: "loading (fetchEvents fetched st0) = False"
    by (rule fetchEvents_loading)
  have c2: "\<forall>err. payload fetched = Inl err \<longrightarrow>
          events (fetchEvents fetched st0) = JArr []
          \<and> error (fetchEvents fetched st0) = JStr (message err)"
    using fetchEvents_failure [of fetched _ st0] by blast
  have c3: "\<forall>data. payload fetched = Inr data \<and> isArray data \<longrightarrow>
          events (fetchEvents fetched st0) = data \<and> error (fetchEvents fetched st0) = JNull"
  proof (intro allI impI)
    fix data assume a: "payload fetched = Inr data \<and> isArray data"
    then show "events (fetchEvents fetched st0) = data \<and> error (fetchEvents fetched st0) = JNull"
      using fetchEvents_data [of fetched data st0] fetchEvents_array [of data st0] by simp
  qed
  have c4: "\<forall>data. payload fetched = Inr data \<and> (data = JNull \<or> data = JUndefined) \<longrightarrow>
          events (fetchEvents fetched st0) = JArr []
          \<and> (\<exists>m. error (fetchEvents fetched st0) = JStr m)"
  proof (intro allI impI)
    fix data assume a: "payload fetched = Inr data \<and> (data = JNull \<or> data = JUndefined)"
    then show "events (fetchEvents fetched st0) = JArr []
          \<and> (\<exists>m. error (fetchEvents fetched st0) = JStr m)"
      using fetchEvents_data [of fetched data st0] fetchEvents_nullish [of data st0] by simp
  qed
  have c5: "\<forall>data. payload fetched = Inr data \<and> \<not> isArray data \<and> data \<noteq> JNull \<and> data \<noteq> JUndefined
          \<and> \<not> truthy (get_optional data ''events'') \<longrightarrow>
          events (fetchEvents fetched st0) = JArr [] \<and> error (fetchEvents fetched st0) = JNull"
  proof (intro allI impI)
    fix data assume a: "payload fetched = Inr data \<and> \<not> isArray data \<and> data \<noteq> JNull
          \<and> data \<noteq> JUndefined \<and> \<not> truthy (get_optional data ''events'')"
    then show "events (fetchEvents fetched st0) = JArr [] \<and> error (fetchEvents fetched st0) = JNull"
      using fetchEvents_data [of fetched data st0] fetchEvents_no_events [of data st0] by simp
  qed
  have c6: "\<forall>data. payload fetched = Inr data \<and> \<not> isArray data
          \<and> isArray (get_optional data ''events'') \<longrightarrow>
          events (fetchEvents fetched st0) = get_optional data ''events''
          \<and> error (fetchEvents fetched st0) = JNull"
  proof (intro allI impI)
    fix data assume a: "payload fetched = Inr data \<and> \<not> isArray data
          \<and> isArray (get_optional data ''events'')"
    then have "truthy (get_optional data ''events'')" using arr by blast
    with a show "events (fetchEvents fetched st0) = get_optional data ''events''
          \<and> error (fetchEvents fetched st0) = JNull"
      using fetchEvents_data [of fetched data st0] fetchEvents_wrapped [of data st0] by simp
  qed
  have c7: "\<not> (\<exists>data. payload fetched = Inr data \<and> \<not> isArray data
             \<and> truthy (get_optional data ''events'')
             \<and> \<not> isArray (get_optional data ''events'')) \<longrightarrow>
          isArray (events (fetchEvents fetched st0))"
  proof
    assume n: "\<not> (\<exists>data. payload fetched = Inr data \<and> \<not> isArray data
             \<and> truthy (get_optional data ''events'')
             \<and> \<not> isArray (get_optional data ''events''))"
    show "isArray (events (fetchEvents fetched st0))"
    proof (cases "payload fetched")
      case (Inl err)
      then show ?thesis using fetchEvents_failure [of fetched err st0] by simp
    next
      case (Inr data)
      note d = fetchEvents_data [OF Inr, of st0]
      show ?thesis
      proof (cases "isArray data")
        case True
        then show ?thesis using fetchEvents_array [of data st0] d by simp
      next
        case False
        show ?thesis
        proof (cases "truthy (get_optional data ''events'')")
          case True
          with n Inr False have "isArray (get_optional data ''events'')" by blast
          then show ?thesis using fetchEvents_wrapped [OF False True, of st0] d by simp
        next
          case nt: False
          show ?thesis
          proof (cases "data = JNull \<or> data = JUndefined")
            case True
            then show ?thesis using fetchEvents_nullish [OF True, of st0] d by simp
          next
            case False
            then show ?thesis
              using fetchEvents_no_events [of data st0] \<open>\<not> isArray data\<close> nt d by simp
          qed
        qed
      qed
    qed
  qed
  show ?thesis
    by (intro conjI) (rule c1, rule c2, rule c3, rule c4, rule c5, rule c6, rule c7)
qed

lemma digits_404: "digits 404 = ''404''"
  by (simp add: digits.simps)

theorem fetchEvents_outcome_witness:
  "payload not_found_response = Inl (Error ''Failed to fetch events: 404'')
   \<and> events (fetchEvents not_found_response initial_state) = JArr []
   \<and> error (fetchEvents not_found_response initial_state) = JStr ''Failed to fetch events: 404''
   \<and> loading (fetchEvents not_found_response initial_state) = False
   \<and> events (fetchEvents (Inl (TypeError ''Failed to fetch'')) initial_state) = JArr []
   \<and> error (fetchEvents (Inl (TypeError ''Failed to fetch'')) initial_state) = JStr ''Failed to fetch''
   \<and> events (fetchEvents (ok_response (JArr [JStr ''e''])) initial_state) = JArr [JStr ''e'']
   \<and> events (fetchEvents (ok_response (JObj [(''count'', JNum 3)])) initial_state) = JArr []
   \<and> error (fetchEvents (ok_response (JObj [(''count'', JNum 3)])) initial_state) = JNull
   \<and> events (fetchEvents (ok_response wrapped_payload) initial_state)
        = JArr [JObj [(''title'', JStr ''Seminar'')]]
   \<and> events (fetchEvents (ok_response JNull) initial_state) = JArr []"
proof -
  have p1: "payload not_found_response = Inl (Error ''Failed to fetch events: 404'')"
    by (simp add: not_found_response_def digits_404)
  have p2: "payload (Inl (TypeError ''Failed to fetch'')) = Inl (TypeError ''Failed to fetch'')"
    by simp
  have p3: "payload (ok_response (JArr [JStr ''e''])) = Inr (JArr [JStr ''e''])"
    by (simp add: ok_response_def)
  have p4: "payload (ok_response (JObj [(''count'', JNum 3)])) = Inr (JObj [(''count'', JNum 3)])
      \<and> \<not> truthy (get_optional (JObj [(''count'', JNum 3)]) ''events'')"
    by (simp add: ok_response_def)
  have p5: "payload (ok_response wrapped_payload) = Inr wrapped_payload
      \<and> \<not> isArray wrapped_payload
      \<and> get_optional wrapped_payload ''events'' = JArr [JObj [(''title'', JStr ''Seminar'')]]"
    by (simp add: ok_response_def wrapped_payload_def)
  have p6: "payload (ok_response JNull) = Inr JNull"
    by (simp add: ok_response_def)
  show ?thesis
    using fetchEvents_outcome [of not_found_response initial_state]
      fetchEvents_outcome [of "Inl (TypeError ''Failed to fetch'')" initial_state]
      fetchEvents_outcome [of "ok_response (JArr [JStr ''e''])" initial_state]
      fetchEvents_outcome [of "ok_response (JObj [(''count'', JNum 3)])" initial_state]
      fetchEvents_outcome [of "ok_response wrapped_payload" initial_state]
      fetchEvents_outcome [of "ok_response JNull" initial_state]
      p1 p2 p3 p4 p5 p6
    by simp
qed

text \<open>
  The claim C10 as stated leaves \<^verbatim>\<open>error\<close> null for every payload that is neither an
  array nor an object with an \<^verbatim>\<open>events\<close> key, and binds \<^verbatim>\<open>events\<close> to an array
  always. The payload null ends with an error message, and a wrapped payload whose
  \<^verbatim>\<open>events\<close> entry is a string binds \<^verbatim>\<open>events\<close> to that string.
\<close>

theorem fetchEvents_array_claim_counterexample:
  "payload (ok_response JNull) = Inr JNull
   \<and> \<not> isArray JNull
   \<and> get_optional JNull ''events'' = JUndefined
   \<and> error (fetchEvents (ok_response JNull) initial_state) \<noteq> JNull
   \<and> payload (ok_response (JObj [(''events'', JStr ''none'')])) = Inr (JObj [(''events'', JStr ''none'')])
   \<and> events (fetchEvents (ok_response (JObj [(''events'', JStr ''none'')])) initial_state) = JStr ''none''
   \<and> \<not> isArray (JStr ''none'')"
  by (simp add: hook_defs ok_response_def initial_state_def)

end
